theory Spec2Isabelle
  imports Main
begin

section \<open>The part of Go's \<open>time\<close> package that \<open>spec.go\<close> calls\<close>

text \<open>
  \<open>spec.go\<close> works on \<open>time.Time\<close> values. A \<open>time.Time\<close> is an instant (whole
  seconds since January 1 of year 1, 00:00:00 UTC, plus nanoseconds) together with a
  \<open>*time.Location\<close>, which decides how the instant is shown as a calendar date and clock
  time. Integers are unbounded here: years stay within a few thousand of the present, far
  from the limits of Go's 64-bit seconds.
\<close>

subsection \<open>Locations\<close>

text \<open>
  A location is a UTC offset valid before the first transition, and a list of transitions
  \<open>(when, offset)\<close>, ascending in \<open>when\<close> (Unix seconds): from \<open>when\<close> on, local time is
  UTC plus \<open>offset\<close> seconds. \<open>isLocal\<close> says that the pointer is \<open>time.Local\<close>; the schedule
  compares its location with \<open>time.Local\<close> by pointer.
\<close>

record location =
  isLocal :: bool
  zoneOffset :: int
  zoneTrans :: "(int \<times> int) list"

definition UTC :: location where
  "UTC = \<lparr>isLocal = False, zoneOffset = 0, zoneTrans = []\<rparr>"

definition FixedZone :: "int \<Rightarrow> location" where
  "FixedZone off = \<lparr>isLocal = False, zoneOffset = off, zoneTrans = []\<rparr>"

definition alpha :: int where "alpha = - (2 ^ 63)"
definition omega :: int where "omega = 2 ^ 63 - 1"

text \<open>
  \<open>Location.lookup\<close>: the offset in use at a Unix time, and the interval \<open>[start, end)\<close> of
  Unix times in which that offset is in use. Go finds the last transition at or before
  the instant by binary search; on an ascending list the scan below finds the same one.
\<close>

fun lookupTx :: "(int \<times> int) list \<Rightarrow> int \<Rightarrow> int \<Rightarrow> int \<Rightarrow> int \<times> int \<times> int" where
  "lookupTx [] u off start = (off, start, omega)"
| "lookupTx ((w, o') # rest) u off start =
     (if u < w then (off, start, w) else lookupTx rest u o' w)"

definition lookup :: "location \<Rightarrow> int \<Rightarrow> int \<times> int \<times> int" where
  "lookup l u = lookupTx (zoneTrans l) u (zoneOffset l) alpha"

subsection \<open>Instants\<close>

record time =
  secs :: int
  nanos :: int
  tloc :: location

definition unixToInternal :: int where
  "unixToInternal = 62135596800"

definition zeroTime :: time where
  "zeroTime = \<lparr>secs = 0, nanos = 0, tloc = UTC\<rparr>"

definition IsZero :: "time \<Rightarrow> bool" where
  "IsZero t \<longleftrightarrow> secs t = 0 \<and> nanos t = 0"

text \<open>\<open>t.Before(u)\<close>, \<open>t.After(u)\<close> and \<open>t.Equal(u)\<close> compare instants, whatever the locations.\<close>

definition Before :: "time \<Rightarrow> time \<Rightarrow> bool" where
  "Before t u \<longleftrightarrow> secs t < secs u \<or> (secs t = secs u \<and> nanos t < nanos u)"

definition After :: "time \<Rightarrow> time \<Rightarrow> bool" where
  "After t u \<longleftrightarrow> secs t > secs u \<or> (secs t = secs u \<and> nanos t > nanos u)"

definition Equal :: "time \<Rightarrow> time \<Rightarrow> bool" where
  "Equal t u \<longleftrightarrow> secs t = secs u \<and> nanos t = nanos u"

definition time_Location :: "time \<Rightarrow> location" where
  "time_Location t = tloc t"

definition In :: "time \<Rightarrow> location \<Rightarrow> time" where
  "In t l = t\<lparr>tloc := l\<rparr>"

text \<open>\<open>t.abs()\<close>: seconds since the epoch on the local clock of \<open>t\<close>'s location.\<close>

definition abs_secs :: "time \<Rightarrow> int" where
  "abs_secs t = secs t + fst (lookup (tloc t) (secs t - unixToInternal))"

subsection \<open>The calendar\<close>

text \<open>
  Go counts days from January 1 of the year \<open>-292277022399\<close>, which is \<open>1\<close> modulo \<open>400\<close>;
  the Gregorian calendar repeats every 400 years, so counting from January 1 of year 1
  with floor division gives the same dates.
\<close>

definition secondsPerDay :: int where "secondsPerDay = 86400"
definition daysPer400Years :: int where "daysPer400Years = 146097"
definition daysPer100Years :: int where "daysPer100Years = 36524"
definition daysPer4Years :: int where "daysPer4Years = 1461"

definition isLeap :: "int \<Rightarrow> bool" where
  "isLeap year \<longleftrightarrow> year mod 4 = 0 \<and> (year mod 100 \<noteq> 0 \<or> year mod 400 = 0)"

text \<open>The days of a year.\<close>

definition yearLen :: "int \<Rightarrow> int" where
  "yearLen y = (if isLeap y then 366 else 365)"

definition daysBefore :: "int \<Rightarrow> int" where
  "daysBefore m = [0, 31, 59, 90, 120, 151, 181, 212, 243, 273, 304, 334, 365] ! nat m"

text \<open>\<open>daysSinceEpoch(year)\<close>: the days before January 1 of \<open>year\<close>.\<close>

definition daysSinceEpoch :: "int \<Rightarrow> int" where
  "daysSinceEpoch year =
     (let y = year - 1;
          n400 = y div 400; y1 = y - 400 * n400;
          n100 = y1 div 100; y2 = y1 - 100 * n100;
          n4 = y2 div 4; y3 = y2 - 4 * n4
      in daysPer400Years * n400 + daysPer100Years * n100 + daysPer4Years * n4 + 365 * y3)"

text \<open>The first half of \<open>absDate\<close>: the year of a day number, and the day within the year.\<close>

definition absYear :: "int \<Rightarrow> int \<times> int" where
  "absYear days =
     (let n400 = days div daysPer400Years; d1 = days - daysPer400Years * n400;
          m100 = d1 div daysPer100Years; n100 = m100 - m100 div 4;
          d2 = d1 - daysPer100Years * n100;
          n4 = d2 div daysPer4Years; d3 = d2 - daysPer4Years * n4;
          m1 = d3 div 365; n1 = m1 - m1 div 4;
          d4 = d3 - 365 * n1
      in (400 * n400 + 100 * n100 + 4 * n4 + n1 + 1, d4))"

text \<open>The second half: month and day of the month from the day within the year.\<close>

definition monthDay :: "int \<Rightarrow> int \<Rightarrow> int \<times> int" where
  "monthDay year yday =
     (if isLeap year \<and> yday = 31 + 29 - 1 then (2, 29)
      else
        let day = (if isLeap year \<and> yday > 31 + 29 - 1 then yday - 1 else yday);
            month = day div 31;
            end = daysBefore (month + 1)
        in if day \<ge> end then (month + 2, day - end + 1)
           else (month + 1, day - daysBefore month + 1))"

definition absDate :: "int \<Rightarrow> int \<times> int \<times> int" where
  "absDate days = (let (year, yday) = absYear days; (month, day) = monthDay year yday
                   in (year, month, day))"

definition time_Year :: "time \<Rightarrow> int" where
  "time_Year t = fst (absDate (abs_secs t div secondsPerDay))"

definition time_Month :: "time \<Rightarrow> int" where
  "time_Month t = fst (snd (absDate (abs_secs t div secondsPerDay)))"

definition time_Day :: "time \<Rightarrow> int" where
  "time_Day t = snd (snd (absDate (abs_secs t div secondsPerDay)))"

definition time_Hour :: "time \<Rightarrow> int" where
  "time_Hour t = (abs_secs t mod secondsPerDay) div 3600"

definition time_Minute :: "time \<Rightarrow> int" where
  "time_Minute t = (abs_secs t mod 3600) div 60"

definition time_Second :: "time \<Rightarrow> int" where
  "time_Second t = abs_secs t mod 60"

definition time_Nanosecond :: "time \<Rightarrow> int" where
  "time_Nanosecond t = nanos t"

text \<open>\<open>t.Weekday()\<close>, Sunday is 0: day 0 of the count is a Monday.\<close>

definition time_Weekday :: "time \<Rightarrow> int" where
  "time_Weekday t = ((abs_secs t + secondsPerDay) mod (7 * secondsPerDay)) div secondsPerDay"

subsection \<open>Arithmetic on instants\<close>

text \<open>Durations are nanoseconds, as in Go.\<close>

definition Nanosecond :: int where "Nanosecond = 1"
definition Second_d :: int where "Second_d = 1000000000"
definition Minute_d :: int where "Minute_d = 60 * Second_d"
definition Hour_d :: int where "Hour_d = 60 * Minute_d"

text \<open>\<open>t.Add(d)\<close>: the instant \<open>d\<close> nanoseconds later, in the same location.\<close>

definition Add :: "time \<Rightarrow> int \<Rightarrow> time" where
  "Add t d = (let n = nanos t + d
              in t\<lparr>secs := secs t + n div 1000000000, nanos := n mod 1000000000\<rparr>)"

text \<open>
  \<open>t.Truncate(d)\<close> rounds down to a multiple of \<open>d\<close> since the zero time; it works on the
  instant, not on the local clock.
\<close>

definition Truncate :: "time \<Rightarrow> int \<Rightarrow> time" where
  "Truncate t d = (if d \<le> 0 then t
                   else Add t (- ((secs t * 1000000000 + nanos t) mod d)))"

text \<open>\<open>norm(hi, lo, base)\<close> brings \<open>lo\<close> into \<open>[0, base)\<close>, carrying into \<open>hi\<close>.\<close>

definition norm :: "int \<Rightarrow> int \<Rightarrow> int \<Rightarrow> int \<times> int" where
  "norm hi lo base = (hi + lo div base, lo mod base)"

text \<open>
  \<open>time.Date\<close>: the instant that shows the given date and clock time in the location. The
  offset is looked up at the wall-clock value read as UTC; if the instant so obtained
  lies outside the interval of that offset, the offset in use at that instant is taken
  instead. A local time that a transition skips therefore yields an instant before or
  after the gap.
\<close>

definition Date :: "int \<Rightarrow> int \<Rightarrow> int \<Rightarrow> int \<Rightarrow> int \<Rightarrow> int \<Rightarrow> int \<Rightarrow> location \<Rightarrow> time" where
  "Date year month day hour minute sec nsec l =
     (let (year1, m) = norm year (month - 1) 12;
          month1 = m + 1;
          (sec1, nsec1) = norm sec nsec 1000000000;
          (min1, sec2) = norm minute sec1 60;
          (hour1, min2) = norm hour min1 60;
          (day1, hour2) = norm day hour1 24;
          d = daysSinceEpoch year1 + daysBefore (month1 - 1)
              + (if isLeap year1 \<and> month1 \<ge> 3 then 1 else 0) + (day1 - 1);
          a = d * secondsPerDay + hour2 * 3600 + min2 * 60 + sec2;
          unix = a - unixToInternal;
          (offset, start, end) = lookup l unix;
          offset1 = (if offset \<noteq> 0 \<and> (unix - offset < start \<or> unix - offset \<ge> end)
                     then fst (lookup l (unix - offset)) else offset)
      in \<lparr>secs = unix - offset1 + unixToInternal, nanos = nsec1, tloc = l\<rparr>)"

text \<open>\<open>t.AddDate(years, months, days)\<close> adds to the fields of the local date and renormalises.\<close>

definition AddDate :: "time \<Rightarrow> int \<Rightarrow> int \<Rightarrow> int \<Rightarrow> time" where
  "AddDate t years months days =
     Date (time_Year t + years) (time_Month t + months) (time_Day t + days)
          (time_Hour t) (time_Minute t) (time_Second t) (nanos t) (tloc t)"


section \<open>The schedule (\<open>spec.go\<close>)\<close>

text \<open>
  \<open>SpecSchedule\<close>: seven bit sets, held as \<open>*big.Int\<close> (unbounded, two's complement for
  bit tests), and the location that overrides the one of the instant; the parser always
  fills every field.
\<close>

record SpecSchedule =
  Second :: int
  Minute :: int
  Hour :: int
  Dom :: int
  Month :: int
  Dow :: int
  Year :: int
  Location :: location

definition maxBits :: int where "maxBits = 160"
definition minYear :: int where "minYear = 1970"
definition maxYear :: int where "maxYear = 2099"

text \<open>
  \<open>x.Bit(i)\<close> of \<open>math/big\<close>: bit \<open>i\<close> of \<open>x\<close> as 0 or 1. Go panics on a negative
  index; \<open>spec.go\<close> passes a month, a day, an hour, a minute, a second, a weekday or
  \<open>maxBits\<close>, and a year difference only behind the test \<open>t.Year() < minYear\<close>.
\<close>

definition Bit :: "int \<Rightarrow> int \<Rightarrow> nat" where
  "Bit x i = (if bit x (nat i) then 1 else 0)"

definition dayMatches :: "SpecSchedule \<Rightarrow> time \<Rightarrow> bool" where
  "dayMatches s t =
     (let domMatch = (Bit (Dom s) (time_Day t) > 0);
          dowMatch = (Bit (Dow s) (time_Weekday t) > 0)
      in if Bit (Dom s) maxBits > 0 \<or> Bit (Dow s) maxBits > 0
         then domMatch \<and> dowMatch
         else domMatch \<or> dowMatch)"

text \<open>
  Lines 150 to 156 of \<open>Next\<close>, and again 303 to 309 of \<open>Prev\<close>: after a step of one day,
  an hour other than 0 is brought back to midnight.
\<close>

definition dstAdjust :: "time \<Rightarrow> time" where
  "dstAdjust t =
     (if time_Hour t \<noteq> 0 then
        (if time_Hour t > 12 then Add t ((24 - time_Hour t) * Hour_d)
         else Add t (- time_Hour t * Hour_d))
      else t)"

subsection \<open>\<open>Next\<close>\<close>

text \<open>
  \<open>Next\<close> is six loops in a row and a label \<open>WRAP\<close> before the first, to which the later
  loops jump. A position in the function is one of the labels below: \<open>WRAP\<close>, or the
  test of one of the loops. The local variables that change are \<open>t\<close> and \<open>added\<close>; \<open>loc\<close>,
  \<open>origLocation\<close> and \<open>yearLimit\<close> are fixed before the first loop. Each function below
  runs the code from one label to the next one reached: it ends the call with a result
  (\<open>Inl\<close>), or goes on at a label with new values of the variables (\<open>Inr\<close>).
\<close>

datatype label = WRAP | YEAR_LOOP | MONTH_LOOP | DAY_LOOP | HOUR_LOOP | MINUTE_LOOP | SECOND_LOOP

type_synonym nstate = "label \<times> time \<times> bool"

definition next_wrap :: "int \<Rightarrow> time \<Rightarrow> bool \<Rightarrow> time + nstate" where
  "next_wrap yearLimit t added =
     (if time_Year t > yearLimit \<or> time_Year t > maxYear then Inl zeroTime
      else Inr (YEAR_LOOP, t, added))"

definition next_year :: "SpecSchedule \<Rightarrow> location \<Rightarrow> int \<Rightarrow> time \<Rightarrow> bool \<Rightarrow> time + nstate" where
  "next_year s loc yearLimit t added =
     (if time_Year t < minYear \<or> Bit (Year s) (time_Year t - minYear) = 0 then
        let t1 = (if \<not> added then Date (time_Year t) 1 1 0 0 0 0 loc else t);
            t2 = AddDate t1 1 0 0
        in if time_Year t2 > yearLimit \<or> time_Year t2 > maxYear then Inl zeroTime
           else Inr (YEAR_LOOP, t2, True)
      else Inr (MONTH_LOOP, t, added))"

definition next_month :: "SpecSchedule \<Rightarrow> location \<Rightarrow> time \<Rightarrow> bool \<Rightarrow> time + nstate" where
  "next_month s loc t added =
     (if Bit (Month s) (time_Month t) = 0 then
        let t1 = (if \<not> added then Date (time_Year t) (time_Month t) 1 0 0 0 0 loc else t);
            t2 = AddDate t1 0 1 0
        in if time_Month t2 = 1 then Inr (WRAP, t2, True)
           else Inr (MONTH_LOOP, t2, True)
      else Inr (DAY_LOOP, t, added))"

definition next_day :: "SpecSchedule \<Rightarrow> location \<Rightarrow> time \<Rightarrow> bool \<Rightarrow> time + nstate" where
  "next_day s loc t added =
     (if \<not> dayMatches s t then
        let t1 = (if \<not> added
                  then Date (time_Year t) (time_Month t) (time_Day t) 0 0 0 0 loc else t);
            t2 = AddDate t1 0 0 1;
            t3 = dstAdjust t2
        in if time_Day t3 = 1 then Inr (WRAP, t3, True)
           else Inr (DAY_LOOP, t3, True)
      else Inr (HOUR_LOOP, t, added))"

definition next_hour :: "SpecSchedule \<Rightarrow> location \<Rightarrow> time \<Rightarrow> bool \<Rightarrow> time + nstate" where
  "next_hour s loc t added =
     (if Bit (Hour s) (time_Hour t) = 0 then
        let t1 = (if \<not> added
                  then Date (time_Year t) (time_Month t) (time_Day t) (time_Hour t) 0 0 0 loc
                  else t);
            t2 = Add t1 (1 * Hour_d)
        in if time_Hour t2 = 0 then Inr (WRAP, t2, True)
           else Inr (HOUR_LOOP, t2, True)
      else Inr (MINUTE_LOOP, t, added))"

definition next_minute :: "SpecSchedule \<Rightarrow> time \<Rightarrow> bool \<Rightarrow> time + nstate" where
  "next_minute s t added =
     (if Bit (Minute s) (time_Minute t) = 0 then
        let t1 = (if \<not> added then Truncate t Minute_d else t);
            t2 = Add t1 (1 * Minute_d)
        in if time_Minute t2 = 0 then Inr (WRAP, t2, True)
           else Inr (MINUTE_LOOP, t2, True)
      else Inr (SECOND_LOOP, t, added))"

definition next_second :: "SpecSchedule \<Rightarrow> location \<Rightarrow> time \<Rightarrow> bool \<Rightarrow> time + nstate" where
  "next_second s origLocation t added =
     (if Bit (Second s) (time_Second t) = 0 then
        let t1 = (if \<not> added then Truncate t Second_d else t);
            t2 = Add t1 (1 * Second_d)
        in if time_Second t2 = 0 then Inr (WRAP, t2, True)
           else Inr (SECOND_LOOP, t2, True)
      else Inl (In t origLocation))"

fun next_step :: "SpecSchedule \<Rightarrow> location \<Rightarrow> location \<Rightarrow> int \<Rightarrow> nstate \<Rightarrow> time + nstate" where
  "next_step s loc origLocation yearLimit (WRAP, t, added) = next_wrap yearLimit t added"
| "next_step s loc origLocation yearLimit (YEAR_LOOP, t, added) = next_year s loc yearLimit t added"
| "next_step s loc origLocation yearLimit (MONTH_LOOP, t, added) = next_month s loc t added"
| "next_step s loc origLocation yearLimit (DAY_LOOP, t, added) = next_day s loc t added"
| "next_step s loc origLocation yearLimit (HOUR_LOOP, t, added) = next_hour s loc t added"
| "next_step s loc origLocation yearLimit (MINUTE_LOOP, t, added) = next_minute s t added"
| "next_step s loc origLocation yearLimit (SECOND_LOOP, t, added) = next_second s origLocation t added"

text \<open>
  Running the steps until one of them returns. A call that never returns has the value
  \<open>None\<close>.
\<close>

partial_function (option) next_run ::
  "SpecSchedule \<Rightarrow> location \<Rightarrow> location \<Rightarrow> int \<Rightarrow> nstate \<Rightarrow> time option" where
  "next_run s loc origLocation yearLimit st =
     (case next_step s loc origLocation yearLimit st of
        Inl r \<Rightarrow> Some r
      | Inr st' \<Rightarrow> next_run s loc origLocation yearLimit st')"

declare next_run.simps [code]

text \<open>
  Lines 86 to 102: the locations, the instant the search starts at, and the year limit.
  \<open>next_loc\<close> is the variable \<open>loc\<close>, the location the fields are read in.
\<close>

definition next_loc :: "SpecSchedule \<Rightarrow> time \<Rightarrow> location" where
  "next_loc s t = (if isLocal (Location s) then time_Location t else Location s)"

text \<open>Lines 91 to 93, and 223 to 225 of \<open>Prev\<close>: \<open>t\<close> in the location of the schedule.\<close>

definition in_schedule_location :: "SpecSchedule \<Rightarrow> time \<Rightarrow> time" where
  "in_schedule_location s t = (if \<not> isLocal (Location s) then In t (Location s) else t)"

definition next_start :: "SpecSchedule \<Rightarrow> time \<Rightarrow> time" where
  "next_start s t =
     (let t1 = in_schedule_location s t
      in Add t1 (- 1 * Second_d - time_Nanosecond t1 * Nanosecond))"

definition Next :: "SpecSchedule \<Rightarrow> time \<Rightarrow> time option" where
  "Next s t =
     (let origLocation = time_Location t;
          loc = next_loc s t;
          t1 = next_start s t;
          yearLimit = time_Year t1 + 5
      in next_run s loc origLocation yearLimit (WRAP, t1, False))"


subsection \<open>\<open>Prev\<close>\<close>

text \<open>
  \<open>Prev\<close> has the same six loops and the same label. Its variables are \<open>t\<close>, \<open>added\<close> and
  the five flags \<open>addYear\<close>, \<open>addMonth\<close>, \<open>addDay\<close>, \<open>addHour\<close> and \<open>addMinute\<close>. The
  \<open>if\<close> that follows each of the first five loops is run when the test of that loop fails,
  on the way to the next loop.
\<close>

type_synonym pstate = "label \<times> time \<times> bool \<times> bool \<times> bool \<times> bool \<times> bool \<times> bool"

definition prev_wrap :: "int \<Rightarrow> time \<Rightarrow> bool \<Rightarrow> bool \<Rightarrow> bool \<Rightarrow> bool \<Rightarrow> bool \<Rightarrow> bool \<Rightarrow> time + pstate" where
  "prev_wrap yearLimit t added addYear addMonth addDay addHour addMinute =
     (if time_Year t < yearLimit \<or> time_Year t < minYear then Inl zeroTime
      else Inr (YEAR_LOOP, t, added, addYear, addMonth, addDay, addHour, addMinute))"

definition prev_year :: "SpecSchedule \<Rightarrow> location \<Rightarrow> int \<Rightarrow>
    time \<Rightarrow> bool \<Rightarrow> bool \<Rightarrow> bool \<Rightarrow> bool \<Rightarrow> bool \<Rightarrow> bool \<Rightarrow> time + pstate" where
  "prev_year s loc yearLimit t added addYear addMonth addDay addHour addMinute =
     (if time_Year t < minYear \<or> Bit (Year s) (time_Year t - minYear) = 0 then
        let t1 = (if \<not> added then Date (time_Year t) 1 1 0 0 0 0 loc else t);
            t2 = AddDate t1 (- 1) 0 0
        in if time_Year t2 < yearLimit \<or> time_Year t2 < minYear then Inl zeroTime
           else Inr (YEAR_LOOP, t2, True, True, addMonth, addDay, addHour, addMinute)
      else if addYear then
        let t1 = AddDate t 1 0 0;
            t2 = AddDate t1 0 (- 1) 0
        in Inr (MONTH_LOOP, t2, added, False, addMonth, addDay, addHour, addMinute)
      else Inr (MONTH_LOOP, t, added, addYear, addMonth, addDay, addHour, addMinute))"

definition prev_month :: "SpecSchedule \<Rightarrow> location \<Rightarrow>
    time \<Rightarrow> bool \<Rightarrow> bool \<Rightarrow> bool \<Rightarrow> bool \<Rightarrow> bool \<Rightarrow> bool \<Rightarrow> time + pstate" where
  "prev_month s loc t added addYear addMonth addDay addHour addMinute =
     (if Bit (Month s) (time_Month t) = 0 then
        let t1 = (if \<not> added then Date (time_Year t) (time_Month t) 1 0 0 0 0 loc else t);
            t2 = AddDate t1 0 (- 1) 0
        in if time_Month t2 = 1
           then Inr (WRAP, t2, True, addYear, True, addDay, addHour, addMinute)
           else Inr (MONTH_LOOP, t2, True, addYear, True, addDay, addHour, addMinute)
      else if addMonth then
        let t1 = AddDate t 0 1 0;
            t2 = AddDate t1 0 0 (- 1)
        in Inr (DAY_LOOP, t2, added, addYear, False, addDay, addHour, addMinute)
      else Inr (DAY_LOOP, t, added, addYear, addMonth, addDay, addHour, addMinute))"

definition prev_day :: "SpecSchedule \<Rightarrow> location \<Rightarrow>
    time \<Rightarrow> bool \<Rightarrow> bool \<Rightarrow> bool \<Rightarrow> bool \<Rightarrow> bool \<Rightarrow> bool \<Rightarrow> time + pstate" where
  "prev_day s loc t added addYear addMonth addDay addHour addMinute =
     (if \<not> dayMatches s t then
        let t1 = (if \<not> added
                  then Date (time_Year t) (time_Month t) (time_Day t) 0 0 0 0 loc else t);
            t2 = AddDate t1 0 0 (- 1);
            t3 = dstAdjust t2
        in if time_Day t3 = 1
           then Inr (WRAP, t3, True, addYear, addMonth, True, addHour, addMinute)
           else Inr (DAY_LOOP, t3, True, addYear, addMonth, True, addHour, addMinute)
      else if addDay then
        let t1 = AddDate t 0 0 1;
            t2 = Add t1 (- 1 * Hour_d)
        in Inr (HOUR_LOOP, t2, added, addYear, addMonth, False, addHour, addMinute)
      else Inr (HOUR_LOOP, t, added, addYear, addMonth, addDay, addHour, addMinute))"

definition prev_hour :: "SpecSchedule \<Rightarrow> location \<Rightarrow>
    time \<Rightarrow> bool \<Rightarrow> bool \<Rightarrow> bool \<Rightarrow> bool \<Rightarrow> bool \<Rightarrow> bool \<Rightarrow> time + pstate" where
  "prev_hour s loc t added addYear addMonth addDay addHour addMinute =
     (if Bit (Hour s) (time_Hour t) = 0 then
        let t1 = (if \<not> added
                  then Date (time_Year t) (time_Month t) (time_Day t) (time_Hour t) 0 0 0 loc
                  else t);
            t2 = Add t1 (- 1 * Hour_d)
        in if time_Hour t2 = 0
           then Inr (WRAP, t2, True, addYear, addMonth, addDay, True, addMinute)
           else Inr (HOUR_LOOP, t2, True, addYear, addMonth, addDay, True, addMinute)
      else if addHour then
        let t1 = Add t (1 * Hour_d);
            t2 = Add t1 (- 1 * Minute_d)
        in Inr (MINUTE_LOOP, t2, added, addYear, addMonth, addDay, False, addMinute)
      else Inr (MINUTE_LOOP, t, added, addYear, addMonth, addDay, addHour, addMinute))"

definition prev_minute :: "SpecSchedule \<Rightarrow>
    time \<Rightarrow> bool \<Rightarrow> bool \<Rightarrow> bool \<Rightarrow> bool \<Rightarrow> bool \<Rightarrow> bool \<Rightarrow> time + pstate" where
  "prev_minute s t added addYear addMonth addDay addHour addMinute =
     (if Bit (Minute s) (time_Minute t) = 0 then
        let t1 = (if \<not> added then Truncate t Minute_d else t);
            t2 = Add t1 (- 1 * Minute_d)
        in if time_Minute t2 = 0
           then Inr (WRAP, t2, True, addYear, addMonth, addDay, addHour, True)
           else Inr (MINUTE_LOOP, t2, True, addYear, addMonth, addDay, addHour, True)
      else if addMinute then
        let t1 = Add t (1 * Minute_d);
            t2 = Add t1 (- 1 * Second_d)
        in Inr (SECOND_LOOP, t2, added, addYear, addMonth, addDay, addHour, False)
      else Inr (SECOND_LOOP, t, added, addYear, addMonth, addDay, addHour, addMinute))"

definition prev_second :: "SpecSchedule \<Rightarrow> location \<Rightarrow>
    time \<Rightarrow> bool \<Rightarrow> bool \<Rightarrow> bool \<Rightarrow> bool \<Rightarrow> bool \<Rightarrow> bool \<Rightarrow> time + pstate" where
  "prev_second s origLocation t added addYear addMonth addDay addHour addMinute =
     (if Bit (Second s) (time_Second t) = 0 then
        let t1 = (if \<not> added then Truncate t Second_d else t);
            t2 = Add t1 (- 1 * Second_d)
        in if time_Second t2 = 0
           then Inr (WRAP, t2, True, addYear, addMonth, addDay, addHour, addMinute)
           else Inr (SECOND_LOOP, t2, True, addYear, addMonth, addDay, addHour, addMinute)
      else Inl (In t origLocation))"

fun prev_step :: "SpecSchedule \<Rightarrow> location \<Rightarrow> location \<Rightarrow> int \<Rightarrow> pstate \<Rightarrow> time + pstate" where
  "prev_step s loc origLocation yearLimit (WRAP, t, added, addYear, addMonth, addDay, addHour, addMinute) =
     prev_wrap yearLimit t added addYear addMonth addDay addHour addMinute"
| "prev_step s loc origLocation yearLimit (YEAR_LOOP, t, added, addYear, addMonth, addDay, addHour, addMinute) =
     prev_year s loc yearLimit t added addYear addMonth addDay addHour addMinute"
| "prev_step s loc origLocation yearLimit (MONTH_LOOP, t, added, addYear, addMonth, addDay, addHour, addMinute) =
     prev_month s loc t added addYear addMonth addDay addHour addMinute"
| "prev_step s loc origLocation yearLimit (DAY_LOOP, t, added, addYear, addMonth, addDay, addHour, addMinute) =
     prev_day s loc t added addYear addMonth addDay addHour addMinute"
| "prev_step s loc origLocation yearLimit (HOUR_LOOP, t, added, addYear, addMonth, addDay, addHour, addMinute) =
     prev_hour s loc t added addYear addMonth addDay addHour addMinute"
| "prev_step s loc origLocation yearLimit (MINUTE_LOOP, t, added, addYear, addMonth, addDay, addHour, addMinute) =
     prev_minute s t added addYear addMonth addDay addHour addMinute"
| "prev_step s loc origLocation yearLimit (SECOND_LOOP, t, added, addYear, addMonth, addDay, addHour, addMinute) =
     prev_second s origLocation t added addYear addMonth addDay addHour addMinute"

partial_function (option) prev_run ::
  "SpecSchedule \<Rightarrow> location \<Rightarrow> location \<Rightarrow> int \<Rightarrow> pstate \<Rightarrow> time option" where
  "prev_run s loc origLocation yearLimit st =
     (case prev_step s loc origLocation yearLimit st of
        Inl r \<Rightarrow> Some r
      | Inr st' \<Rightarrow> prev_run s loc origLocation yearLimit st')"

declare prev_run.simps [code]

text \<open>
  Lines 218 to 240: the rounding of \<open>Next\<close> is commented out, the search starts at \<open>t\<close>
  itself, in the location of the schedule.
\<close>

definition Prev :: "SpecSchedule \<Rightarrow> time \<Rightarrow> time option" where
  "Prev s t =
     (let origLocation = time_Location t;
          loc = next_loc s t;
          t1 = in_schedule_location s t;
          yearLimit = time_Year t1 - 5
      in prev_run s loc origLocation yearLimit
           (WRAP, t1, False, False, False, False, False, False))"


section \<open>Schedules and locations used as examples\<close>

text \<open>
  The schedule without any restriction, as the parser builds it for \<open>* * * * * * *\<close>:
  every value of every field has its bit.
\<close>

definition wildcard :: "location \<Rightarrow> SpecSchedule" where
  "wildcard l = \<lparr>Second = 2 ^ 60 - 1, Minute = 2 ^ 60 - 1, Hour = 2 ^ 24 - 1,
                  Dom = 2 ^ 32 - 2, Month = 2 ^ 13 - 2, Dow = 2 ^ 7 - 1,
                  Year = 2 ^ 130 - 1, Location = l\<rparr>"

text \<open>December of 2024 only: year bit \<open>2024 - 1970 = 54\<close>, month bit 12.\<close>

definition december2024 :: SpecSchedule where
  "december2024 = (wildcard UTC)\<lparr>Year := 2 ^ 54, Month := 2 ^ 12\<rparr>"


text \<open>
  America/Sao\_Paulo around November 4, 2018: UTC-3 until 2018-11-04T03:00:00Z, UTC-2
  from then on, so that the local clock goes from 23:59:59 on November 3 to 01:00:00 on
  November 4.
\<close>

definition saoPaulo :: location where
  "saoPaulo = \<lparr>isLocal = False, zoneOffset = - 10800, zoneTrans = [(1541300400, - 7200)]\<rparr>"

text \<open>At 01:00, on the third day of the month.\<close>

definition third_at_one :: SpecSchedule where
  "third_at_one = (wildcard saoPaulo)\<lparr>Hour := 2 ^ 1, Dom := 2 ^ 3, Dow := 0\<rparr>"

text \<open>On the fifth day of the month.\<close>

definition on_the_fifth :: SpecSchedule where
  "on_the_fifth = (wildcard saoPaulo)\<lparr>Dom := 2 ^ 5, Dow := 0\<rparr>"

text \<open>
  Pacific/Apia at the end of 2011: UTC-10 until 2011-12-30T10:00:00Z, UTC+14 from then
  on. The local clock goes from 23:59:59 on December 29 to 00:00:00 on December 31:
  December 30, 2011 does not exist there.
\<close>

definition apia :: location where
  "apia = \<lparr>isLocal = False, zoneOffset = - 36000, zoneTrans = [(1325239200, 50400)]\<rparr>"

text \<open>On the 31st of the month.\<close>

definition on_the_31st :: SpecSchedule where
  "on_the_31st = (wildcard apia)\<lparr>Dom := 2 ^ 31, Dow := 0\<rparr>"

text \<open>The 15th of the month and a Monday, with the restriction flag on the day of month.\<close>

definition monday_the_15th :: SpecSchedule where
  "monday_the_15th = (wildcard UTC)\<lparr>Dom := 2 ^ 15 + 2 ^ 160, Dow := 2 ^ 1\<rparr>"





section \<open>Notions used in the properties\<close>


text \<open>
  The number of the day \<open>d\<close> of month \<open>m\<close> of year \<open>y\<close>, counted as \<open>daysSinceEpoch\<close>
  counts the first day of a year.
\<close>

definition civil_day :: "int \<Rightarrow> int \<Rightarrow> int \<Rightarrow> int" where
  "civil_day y m d =
     daysSinceEpoch y + daysBefore (m - 1) + (if isLeap y \<and> 3 \<le> m then 1 else 0) + (d - 1)"

text \<open>
  Every offset from UTC of the location, in seconds, is at most \<open>b\<close> in absolute value.
  The offsets of the time zone database are within 16 hours.
\<close>

definition offsets_within :: "location \<Rightarrow> int \<Rightarrow> bool" where
  "offsets_within l b \<longleftrightarrow>
     \<bar>zoneOffset l\<bar> \<le> b \<and> list_all (\<lambda>(w, off). \<bar>off\<bar> \<le> b) (zoneTrans l)"


section \<open>Properties\<close>

subsection \<open>Running the steps\<close>

lemma next_run_step:
  "next_step s loc orig yl st = Inr st' \<Longrightarrow>
   next_run s loc orig yl st = next_run s loc orig yl st'"
  by (subst next_run.simps) simp

lemma next_run_return:
  "next_step s loc orig yl st = Inl r \<Longrightarrow> next_run s loc orig yl st = Some r"
  by (subst next_run.simps) simp

lemma prev_run_step:
  "prev_step s loc orig yl st = Inr st' \<Longrightarrow>
   prev_run s loc orig yl st = prev_run s loc orig yl st'"
  by (subst prev_run.simps) simp

lemma prev_run_return:
  "prev_step s loc orig yl st = Inl r \<Longrightarrow> prev_run s loc orig yl st = Some r"
  by (subst prev_run.simps) simp

text \<open>A position that a step maps to itself is never left: the call does not return.\<close>

lemma next_run_stuck:
  assumes "next_step s loc orig yl x = Inr x"
  shows "next_run s loc orig yl x = None"
proof (rule ccontr)
  assume "next_run s loc orig yl x \<noteq> None"
  then obtain y where y: "next_run s loc orig yl x = Some y" by auto
  have "\<not> (s = s \<and> loc = loc \<and> orig = orig \<and> yl = yl \<and> x = x)"
    using y
  proof (induction rule: next_run.raw_induct[where P="\<lambda>s' loc' orig' yl' st y.
           \<not> (s' = s \<and> loc' = loc \<and> orig' = orig \<and> yl' = yl \<and> st = x)",
           rotated 1, consumes 1])
    case (1 f s' loc' orig' yl' st y)
    show ?case
    proof
      assume e: "s' = s \<and> loc' = loc \<and> orig' = orig \<and> yl' = yl \<and> st = x"
      with 1(2) assms have "f s loc orig yl x = Some y" by simp
      with 1(1) show False by blast
    qed
  qed
  then show False by simp
qed

lemma Bit_pos: "(Bit x i > 0) = bit x (nat i)" "(Bit x i = 0) = (\<not> bit x (nat i))"
  by (simp_all add: Bit_def)

lemma In_back: "In (In t l) (tloc t) = t" "In t (tloc t) = t"
  by (simp_all add: In_def)

subsection \<open>The calendar: years\<close>

lemma dse_digits:
  assumes "0 \<le> b" "b < 4" "0 \<le> c" "c < 25" "0 \<le> e" "e < 4"
  shows "daysSinceEpoch (400 * a + 100 * b + 4 * c + e + 1)
         = 146097 * a + 36524 * b + 1461 * c + 365 * e"
proof -
  have d400: "(400 * a + 100 * b + 4 * c + e) div 400 = a"
    by (rule int_div_pos_eq[where r = "100 * b + 4 * c + e"]) (use assms in auto)
  have d100: "(100 * b + 4 * c + e) div 100 = b"
    by (rule int_div_pos_eq[where r = "4 * c + e"]) (use assms in auto)
  have d4: "(4 * c + e) div 4 = c"
    by (rule int_div_pos_eq[where r = e]) (use assms in auto)
  have s0: "400 * a + 100 * b + 4 * c + e + 1 - 1 = 400 * a + 100 * b + 4 * c + e" by simp
  have s1: "400 * a + 100 * b + 4 * c + e - 400 * a = 100 * b + 4 * c + e" by simp
  have s2: "100 * b + 4 * c + e - 100 * b = 4 * c + e" by simp
  have s3: "4 * c + e - 4 * c = e" by simp
  show ?thesis
    unfolding daysSinceEpoch_def Let_def s0 d400 s1 d100 s2 d4 s3
      daysPer400Years_def daysPer100Years_def daysPer4Years_def by simp
qed

lemma year_digits:
  fixes y :: int
  obtains a b c e where "y = 400 * a + 100 * b + 4 * c + e + 1"
    "0 \<le> b" "b < 4" "0 \<le> c" "c < 25" "0 \<le> e" "e < 4"
proof -
  define a where "a = (y - 1) div 400"
  define r where "r = (y - 1) mod 400"
  define b where "b = r div 100"
  define r' where "r' = r mod 100"
  define c where "c = r' div 4"
  define e where "e = r' mod 4"
  have 1: "y - 1 = 400 * a + r" by (simp add: a_def r_def)
  have 2: "r = 100 * b + r'" by (simp add: b_def r'_def)
  have 3: "r' = 4 * c + e" by (simp add: c_def e_def)
  have rb: "0 \<le> r" "r < 400" by (simp_all add: r_def)
  have r'b: "0 \<le> r'" "r' < 100" by (simp_all add: r'_def)
  have eb: "0 \<le> e" "e < 4" by (simp_all add: e_def)
  have bb: "0 \<le> b" "b < 4" using rb r'b 2 by linarith+
  have cb: "0 \<le> c" "c < 25" using r'b eb 3 by linarith+
  have "y = 400 * a + 100 * b + 4 * c + e + 1" using 1 2 3 by linarith
  then show ?thesis
    using that[of a b c e] bb cb eb by blast
qed

lemma mod_shift: "(r + n * q) mod n = r mod (n::int)"
  by simp

lemma mod_eq_0_upto: "0 < (x::int) \<Longrightarrow> x \<le> n \<Longrightarrow> x mod n = 0 \<longleftrightarrow> x = n"
  by (cases "x = n") auto

lemma isLeap_digits:
  assumes "0 \<le> b" "b < 4" "0 \<le> c" "c < 25" "0 \<le> e" "e < 4"
  shows "isLeap (400 * a + 100 * b + 4 * c + e + 1) \<longleftrightarrow> e = 3 \<and> (c < 24 \<or> b = 3)"
proof -
  let ?y = "400 * a + 100 * b + 4 * c + e + 1"
  have m4: "?y mod 4 = (e + 1) mod 4"
    using mod_shift [of "e + 1" 4 "100 * a + 25 * b + c"] by (simp add: algebra_simps)
  have m100: "?y mod 100 = (4 * c + e + 1) mod 100"
    using mod_shift [of "4 * c + e + 1" 100 "4 * a + b"] by (simp add: algebra_simps)
  have m400: "?y mod 400 = (100 * b + 4 * c + e + 1) mod 400"
    using mod_shift [of "100 * b + 4 * c + e + 1" 400 a] by (simp add: algebra_simps)
  have e4: "(e + 1) mod 4 = 0 \<longleftrightarrow> e = 3"
  proof -
    have "0 < e + 1" "e + 1 \<le> 4" using assms by linarith+
    then have "(e + 1) mod 4 = 0 \<longleftrightarrow> e + 1 = 4" by (rule mod_eq_0_upto)
    then show ?thesis by auto
  qed
  have c100: "(4 * c + e + 1) mod 100 = 0 \<longleftrightarrow> c = 24 \<and> e = 3"
  proof -
    have "0 < 4 * c + e + 1" "4 * c + e + 1 \<le> 100" using assms by linarith+
    then have "(4 * c + e + 1) mod 100 = 0 \<longleftrightarrow> 4 * c + e + 1 = 100"
      by (rule mod_eq_0_upto)
    moreover have "4 * c + e + 1 = 100 \<longleftrightarrow> c = 24 \<and> e = 3" using assms by linarith
    ultimately show ?thesis by simp
  qed
  have b400: "(100 * b + 4 * c + e + 1) mod 400 = 0 \<longleftrightarrow> b = 3 \<and> c = 24 \<and> e = 3"
  proof -
    have "0 < 100 * b + 4 * c + e + 1" "100 * b + 4 * c + e + 1 \<le> 400"
      using assms by linarith+
    then have "(100 * b + 4 * c + e + 1) mod 400 = 0 \<longleftrightarrow> 100 * b + 4 * c + e + 1 = 400"
      by (rule mod_eq_0_upto)
    moreover have "100 * b + 4 * c + e + 1 = 400 \<longleftrightarrow> b = 3 \<and> c = 24 \<and> e = 3"
      using assms by linarith
    ultimately show ?thesis by simp
  qed
  show ?thesis
    unfolding isLeap_def m4 m100 m400 e4 c100 b400 using assms(4) by auto
qed

lemma dse_succ: "daysSinceEpoch (y + 1) = daysSinceEpoch y + yearLen y"
proof -
  obtain a b c e where yy: "y = 400 * a + 100 * b + 4 * c + e + 1"
    and r: "0 \<le> b" "b < 4" "0 \<le> c" "c < 25" "0 \<le> e" "e < 4"
    by (rule year_digits)
  have dy: "daysSinceEpoch y = 146097 * a + 36524 * b + 1461 * c + 365 * e"
    unfolding yy by (rule dse_digits) (use r in auto)
  have ly: "isLeap y \<longleftrightarrow> e = 3 \<and> (c < 24 \<or> b = 3)"
    unfolding yy by (rule isLeap_digits) (use r in auto)
  consider "e < 3" | "e = 3" "c < 24" | "e = 3" "c = 24" "b < 3" | "e = 3" "c = 24" "b = 3"
    using r by linarith
  then show ?thesis
  proof cases
    case 1
    have "y + 1 = 400 * a + 100 * b + 4 * c + (e + 1) + 1" using yy by simp
    also have "daysSinceEpoch \<dots> = 146097 * a + 36524 * b + 1461 * c + 365 * (e + 1)"
      by (rule dse_digits) (use r 1 in auto)
    finally show ?thesis using dy ly 1 by (simp add: yearLen_def)
  next
    case 2
    have "y + 1 = 400 * a + 100 * b + 4 * (c + 1) + 0 + 1" using yy 2 by simp
    also have "daysSinceEpoch \<dots> = 146097 * a + 36524 * b + 1461 * (c + 1) + 365 * 0"
      by (rule dse_digits) (use r 2 in auto)
    finally show ?thesis using dy ly 2 by (simp add: yearLen_def)
  next
    case 3
    have "y + 1 = 400 * a + 100 * (b + 1) + 4 * 0 + 0 + 1" using yy 3 by simp
    also have "daysSinceEpoch \<dots> = 146097 * a + 36524 * (b + 1) + 1461 * 0 + 365 * 0"
      by (rule dse_digits) (use r 3 in auto)
    finally show ?thesis using dy ly 3 by (simp add: yearLen_def)
  next
    case 4
    have "y + 1 = 400 * (a + 1) + 100 * 0 + 4 * 0 + 0 + 1" using yy 4 by simp
    also have "daysSinceEpoch \<dots> = 146097 * (a + 1) + 36524 * 0 + 1461 * 0 + 365 * 0"
      by (rule dse_digits) auto
    finally show ?thesis using dy ly 4 by (simp add: yearLen_def)
  qed
qed

lemma yearLen_pos: "365 \<le> yearLen y" "yearLen y \<le> 366"
  by (simp_all add: yearLen_def)

lemma dse_mono_aux: "daysSinceEpoch y + 365 * int n \<le> daysSinceEpoch (y + int n)"
proof (induction n)
  case 0
  then show ?case by simp
next
  case (Suc n)
  have "y + int (Suc n) = y + int n + 1" by simp
  then have "daysSinceEpoch (y + int (Suc n)) = daysSinceEpoch (y + int n) + yearLen (y + int n)"
    using dse_succ [of "y + int n"] by (simp only:)
  then show ?case using Suc yearLen_pos(1) [of "y + int n"] by simp
qed

lemma dse_mono: "y \<le> y' \<Longrightarrow> daysSinceEpoch y + 365 * (y' - y) \<le> daysSinceEpoch y'"
  using dse_mono_aux [of y "nat (y' - y)"] by simp

lemma dse_strict: "y < y' \<Longrightarrow> daysSinceEpoch y < daysSinceEpoch y'"
  using dse_mono [of y y'] by simp

lemma small_div4: "0 \<le> (m::int) \<Longrightarrow> m \<le> 4 \<Longrightarrow> m - m div 4 = (if m = 4 then 3 else m)"
proof -
  assume "0 \<le> m" "m \<le> 4"
  then consider "m = 4" | "0 \<le> m \<and> m < 4" by linarith
  then show ?thesis by cases auto
qed

lemma absYear_repr:
  obtains a b c e r where
    "d = 146097 * a + 36524 * b + 1461 * c + 365 * e + r"
    "0 \<le> b" "b < 4" "0 \<le> c" "c < 25" "0 \<le> e" "e < 4" "0 \<le> r"
    "r < 365 \<or> (r = 365 \<and> e = 3 \<and> (c < 24 \<or> b = 3))"
    "absYear d = (400 * a + 100 * b + 4 * c + e + 1, r)"
proof -
  define a where "a = d div 146097"
  define d1 where "d1 = d - 146097 * a"
  define m100 where "m100 = d1 div 36524"
  define b where "b = m100 - m100 div 4"
  define d2 where "d2 = d1 - 36524 * b"
  define c where "c = d2 div 1461"
  define d3 where "d3 = d2 - 1461 * c"
  define m1 where "m1 = d3 div 365"
  define e where "e = m1 - m1 div 4"
  define r where "r = d3 - 365 * e"
  have val: "absYear d = (400 * a + 100 * b + 4 * c + e + 1, r)"
    by (simp only: absYear_def Let_def daysPer400Years_def daysPer100Years_def
        daysPer4Years_def a_def d1_def m100_def b_def d2_def c_def d3_def m1_def e_def r_def)
  have d1m: "d1 = d mod 146097"
    by (simp add: d1_def a_def minus_mult_div_eq_mod)
  have d1b: "0 \<le> d1" "d1 < 146097" by (simp_all add: d1m)
  define q1 where "q1 = d1 mod 36524"
  have q1: "d1 = 36524 * m100 + q1" "0 \<le> q1" "q1 < 36524"
    by (simp_all add: m100_def q1_def)
  have m100b: "0 \<le> m100" "m100 \<le> 4" using d1b q1 by linarith+
  have bv: "b = (if m100 = 4 then 3 else m100)"
    unfolding b_def using m100b by (rule small_div4)
  have bb: "0 \<le> b" "b < 4" using bv m100b by (auto split: if_splits)
  have d2b: "0 \<le> d2" "d2 \<le> 36524" "d2 = 36524 \<longrightarrow> b = 3"
    using bv q1 d1b m100b by (auto simp: d2_def split: if_splits)
  have d3m: "d3 = d2 mod 1461"
    by (simp add: d3_def c_def minus_mult_div_eq_mod)
  have d3b: "0 \<le> d3" "d3 < 1461" by (simp_all add: d3m)
  have d2c: "d2 = 1461 * c + d3" by (simp add: d3_def)
  have cb: "0 \<le> c" "c < 25" using d2b d3b d2c by linarith+
  define q3 where "q3 = d3 mod 365"
  have q3: "d3 = 365 * m1 + q3" "0 \<le> q3" "q3 < 365"
    by (simp_all add: m1_def q3_def)
  have m1b: "0 \<le> m1" "m1 \<le> 4" using d3b q3 by linarith+
  have ev: "e = (if m1 = 4 then 3 else m1)"
    unfolding e_def using m1b by (rule small_div4)
  have eb: "0 \<le> e" "e < 4" using ev m1b by (auto split: if_splits)
  have rb: "0 \<le> r" using ev q3 m1b by (auto simp: r_def split: if_splits)
  have rl: "r < 365 \<or> (r = 365 \<and> e = 3 \<and> (c < 24 \<or> b = 3))"
  proof (cases "m1 = 4")
    case True
    then have "d3 = 1460" "e = 3" "r = 365" using q3 d3b ev by (auto simp: r_def)
    moreover have "c < 24 \<or> b = 3" using d2c d2b cb \<open>d3 = 1460\<close> by linarith
    ultimately show ?thesis by simp
  next
    case False
    then have "r = q3" using ev q3 by (simp add: r_def)
    then show ?thesis using q3 by simp
  qed
  have sum: "d = 146097 * a + 36524 * b + 1461 * c + 365 * e + r"
    by (simp add: d1_def d2_def d3_def r_def)
  show ?thesis
    using that [OF sum bb cb eb rb rl val] .
qed

text \<open>The year of a day number: the day lies within that year.\<close>

lemma absYear_sound:
  assumes "absYear d = (y, r)"
  shows "d = daysSinceEpoch y + r" "0 \<le> r" "r < yearLen y"
proof -
  obtain a b c e r' where
    sum: "d = 146097 * a + 36524 * b + 1461 * c + 365 * e + r'"
    and dg: "0 \<le> b" "b < 4" "0 \<le> c" "c < 25" "0 \<le> e" "e < 4"
    and r': "0 \<le> r'" "r' < 365 \<or> (r' = 365 \<and> e = 3 \<and> (c < 24 \<or> b = 3))"
    and val: "absYear d = (400 * a + 100 * b + 4 * c + e + 1, r')"
    by (rule absYear_repr)
  have y: "y = 400 * a + 100 * b + 4 * c + e + 1" and r: "r = r'"
    using assms val by simp_all
  have dy: "daysSinceEpoch y = 146097 * a + 36524 * b + 1461 * c + 365 * e"
    unfolding y by (rule dse_digits) (use dg in auto)
  have ly: "isLeap y \<longleftrightarrow> e = 3 \<and> (c < 24 \<or> b = 3)"
    unfolding y by (rule isLeap_digits) (use dg in auto)
  show "d = daysSinceEpoch y + r" using sum dy r by simp
  show "0 \<le> r" using r' r by simp
  show "r < yearLen y" using r' r ly by (auto simp: yearLen_def)
qed

lemma absYear_unique:
  assumes "daysSinceEpoch y \<le> d" "d < daysSinceEpoch (y + 1)"
  shows "absYear d = (y, d - daysSinceEpoch y)"
proof -
  obtain y' r where v: "absYear d = (y', r)" by (cases "absYear d")
  note s = absYear_sound [OF v]
  have up: "d < daysSinceEpoch (y' + 1)" using s dse_succ [of y'] by simp
  have "\<not> y' < y"
  proof
    assume "y' < y"
    then have "daysSinceEpoch (y' + 1) \<le> daysSinceEpoch y"
      using dse_mono [of "y' + 1" y] by simp
    then show False using up assms by simp
  qed
  moreover have "\<not> y < y'"
  proof
    assume "y < y'"
    then have "daysSinceEpoch (y + 1) \<le> daysSinceEpoch y'"
      using dse_mono [of "y + 1" y'] by simp
    then show False using s assms by simp
  qed
  ultimately have "y' = y" by simp
  then show ?thesis using v s by simp
qed

lemma absYear_mono: "d \<le> d' \<Longrightarrow> fst (absYear d) \<le> fst (absYear d')"
proof (rule ccontr)
  assume le: "d \<le> d'" and "\<not> fst (absYear d) \<le> fst (absYear d')"
  then have lt: "fst (absYear d') < fst (absYear d)" by simp
  obtain y r where v: "absYear d = (y, r)" by (cases "absYear d")
  obtain y' r' where v': "absYear d' = (y', r')" by (cases "absYear d'")
  note s = absYear_sound [OF v] and s' = absYear_sound [OF v']
  have "daysSinceEpoch (y' + 1) \<le> daysSinceEpoch y"
    using lt v v' dse_mono [of "y' + 1" y] by simp
  moreover have "d' < daysSinceEpoch (y' + 1)" using s' dse_succ [of y'] by simp
  ultimately show False using s le by simp
qed

subsection \<open>The calendar: months and days\<close>

lemma daysBefore_values:
  "daysBefore 0 = 0" "daysBefore 1 = 31" "daysBefore 2 = 59" "daysBefore 3 = 90"
  "daysBefore 4 = 120" "daysBefore 5 = 151" "daysBefore 6 = 181" "daysBefore 7 = 212"
  "daysBefore 8 = 243" "daysBefore 9 = 273" "daysBefore 10 = 304" "daysBefore 11 = 334"
  "daysBefore 12 = 365"
  by (simp_all add: daysBefore_def)

text \<open>Month and day in a year without February 29, from the day of the year.\<close>

lemma month_of_day_aux:
  assumes "day = 31 * q + r" "0 \<le> r" "r < 31" "0 \<le> q" "q \<le> 11" "day \<le> 364"
    and "(m, d) = (if day \<ge> daysBefore (q + 1) then (q + 2, day - daysBefore (q + 1) + 1)
                   else (q + 1, day - daysBefore q + 1))"
  shows "1 \<le> m \<and> m \<le> 12 \<and> 1 \<le> d \<and> day = daysBefore (m - 1) + d - 1 \<and> (3 \<le> m \<longleftrightarrow> 59 \<le> day)"
proof -
  consider "q = 0" | "q = 1" | "q = 2" | "q = 3" | "q = 4" | "q = 5" | "q = 6"
    | "q = 7" | "q = 8" | "q = 9" | "q = 10" | "q = 11"
    using assms(4,5) by atomize_elim presburger
  then show ?thesis
  proof cases
    case 1
    show ?thesis
      using assms unfolding 1 by (auto simp add: daysBefore_values split: if_splits)
  next
    case 2
    show ?thesis
      using assms unfolding 2 by (auto simp add: daysBefore_values split: if_splits)
  next
    case 3
    show ?thesis
      using assms unfolding 3 by (auto simp add: daysBefore_values split: if_splits)
  next
    case 4
    show ?thesis
      using assms unfolding 4 by (auto simp add: daysBefore_values split: if_splits)
  next
    case 5
    show ?thesis
      using assms unfolding 5 by (auto simp add: daysBefore_values split: if_splits)
  next
    case 6
    show ?thesis
      using assms unfolding 6 by (auto simp add: daysBefore_values split: if_splits)
  next
    case 7
    show ?thesis
      using assms unfolding 7 by (auto simp add: daysBefore_values split: if_splits)
  next
    case 8
    show ?thesis
      using assms unfolding 8 by (auto simp add: daysBefore_values split: if_splits)
  next
    case 9
    show ?thesis
      using assms unfolding 9 by (auto simp add: daysBefore_values split: if_splits)
  next
    case 10
    show ?thesis
      using assms unfolding 10 by (auto simp add: daysBefore_values split: if_splits)
  next
    case 11
    show ?thesis
      using assms unfolding 11 by (auto simp add: daysBefore_values split: if_splits)
  next
    case 12
    show ?thesis
      using assms unfolding 12 by (auto simp add: daysBefore_values split: if_splits)
  qed
qed

lemma month_of_day:
  assumes "0 \<le> day" "day \<le> 364"
    and "(m, d) = (let month = day div 31; end = daysBefore (month + 1)
                   in if day \<ge> end then (month + 2, day - end + 1)
                      else (month + 1, day - daysBefore month + 1))"
  shows "1 \<le> m \<and> m \<le> 12 \<and> 1 \<le> d \<and> day = daysBefore (m - 1) + d - 1 \<and> (3 \<le> m \<longleftrightarrow> 59 \<le> day)"
proof (rule month_of_day_aux [where q = "day div 31" and r = "day mod 31"])
  show "day = 31 * (day div 31) + day mod 31" by simp
  show "0 \<le> day mod 31" "day mod 31 < 31" by simp_all
  show "0 \<le> day div 31" using assms(1) by (simp add: pos_imp_zdiv_nonneg_iff)
  show "day div 31 \<le> 11" using assms(2) by linarith
  show "day \<le> 364" by (rule assms(2))
  show "(m, d) = (if day \<ge> daysBefore (day div 31 + 1)
                  then (day div 31 + 2, day - daysBefore (day div 31 + 1) + 1)
                  else (day div 31 + 1, day - daysBefore (day div 31) + 1))"
    using assms(3) by (simp add: Let_def)
qed

lemma monthDay_sound:
  assumes "0 \<le> yday" "yday < yearLen y" "monthDay y yday = (m, d)"
  shows "1 \<le> m" "m \<le> 12" "1 \<le> d"
    "yday = daysBefore (m - 1) + (if isLeap y \<and> 3 \<le> m then 1 else 0) + (d - 1)"
proof -
  have all: "1 \<le> m \<and> m \<le> 12 \<and> 1 \<le> d
      \<and> yday = daysBefore (m - 1) + (if isLeap y \<and> 3 \<le> m then 1 else 0) + (d - 1)"
  proof (cases "isLeap y \<and> yday = 59")
    case True
    then have "m = 2" "d = 29" using assms(3) by (simp_all add: monthDay_def)
    then show ?thesis using True by (simp add: daysBefore_values)
  next
    case False
    define day where "day = (if isLeap y \<and> yday > 59 then yday - 1 else yday)"
    have e: "monthDay y yday = (let month = day div 31; end = daysBefore (month + 1)
                   in if day \<ge> end then (month + 2, day - end + 1)
                      else (month + 1, day - daysBefore month + 1))"
      using False unfolding monthDay_def day_def Let_def by auto
    have md: "(m, d) = (let month = day div 31; end = daysBefore (month + 1)
                   in if day \<ge> end then (month + 2, day - end + 1)
                      else (month + 1, day - daysBefore month + 1))"
      unfolding e [symmetric] assms(3) ..
    have b: "0 \<le> day" "day \<le> 364"
      using assms(1,2) False by (auto simp add: day_def yearLen_def split: if_splits)
    have r: "1 \<le> m \<and> m \<le> 12 \<and> 1 \<le> d \<and> day = daysBefore (m - 1) + d - 1
             \<and> (3 \<le> m \<longleftrightarrow> 59 \<le> day)"
      using b md by (rule month_of_day)
    have "yday = day + (if isLeap y \<and> 59 \<le> day then 1 else 0)"
      using False by (auto simp add: day_def)
    then show ?thesis using r by auto
  qed
  show "1 \<le> m" "m \<le> 12" "1 \<le> d"
    "yday = daysBefore (m - 1) + (if isLeap y \<and> 3 \<le> m then 1 else 0) + (d - 1)"
    using all by simp_all
qed

text \<open>The date of a day number is a date with that day number.\<close>

lemma absDate_sound:
  assumes "absDate n = (y, m, d)"
  shows "civil_day y m d = n" "1 \<le> m" "m \<le> 12" "1 \<le> d"
proof -
  obtain r where ay: "absYear n = (y, r)" and md: "monthDay y r = (m, d)"
    using assms by (auto simp add: absDate_def split: prod.splits)
  note s = absYear_sound [OF ay]
  note t = monthDay_sound [OF s(2) s(3) md]
  show "civil_day y m d = n" using s(1) t(4) by (simp add: civil_day_def)
  show "1 \<le> m" "m \<le> 12" "1 \<le> d" using t by simp_all
qed

lemma clock_parts:
  "x mod 86400 = 3600 * ((x mod 86400) div 3600) + 60 * ((x mod 3600) div 60) + x mod (60::int)"
proof -
  have a: "x mod 3600 = (x mod 86400) mod 3600"
    by (simp add: mod_mod_cancel)
  have b: "x mod 60 = (x mod 3600) mod 60"
    by (simp add: mod_mod_cancel)
  have "x mod 86400 = 3600 * ((x mod 86400) div 3600) + (x mod 86400) mod 3600" by simp
  moreover have "x mod 3600 = 60 * ((x mod 3600) div 60) + (x mod 3600) mod 60" by simp
  ultimately show ?thesis using a b by linarith
qed

lemma abs_secs_fields:
  "abs_secs t = 86400 * civil_day (time_Year t) (time_Month t) (time_Day t)
                + 3600 * time_Hour t + 60 * time_Minute t + time_Second t"
proof -
  obtain y m d where a: "absDate (abs_secs t div 86400) = (y, m, d)"
    by (cases "absDate (abs_secs t div 86400)") auto
  have f: "time_Year t = y" "time_Month t = m" "time_Day t = d"
    using a by (simp_all add: time_Year_def time_Month_def time_Day_def secondsPerDay_def)
  have 1: "abs_secs t = 86400 * (abs_secs t div 86400) + abs_secs t mod 86400" by simp
  show ?thesis
    unfolding f time_Hour_def time_Minute_def time_Second_def secondsPerDay_def
    using 1 absDate_sound(1) [OF a] clock_parts [of "abs_secs t"] by linarith
qed

lemma field_ranges:
  "1 \<le> time_Month t" "time_Month t \<le> 12" "1 \<le> time_Day t"
  "0 \<le> time_Hour t" "time_Hour t < 24" "0 \<le> time_Minute t" "time_Minute t < 60"
  "0 \<le> time_Second t" "time_Second t < 60"
proof -
  obtain y m d where a: "absDate (abs_secs t div 86400) = (y, m, d)"
    by (cases "absDate (abs_secs t div 86400)") auto
  have f: "time_Month t = m" "time_Day t = d"
    using a by (simp_all add: time_Month_def time_Day_def secondsPerDay_def)
  show "1 \<le> time_Month t" "time_Month t \<le> 12" "1 \<le> time_Day t"
    using absDate_sound [OF a] f by simp_all
  have "0 \<le> abs_secs t mod 86400" "abs_secs t mod 86400 < 86400" by simp_all
  then show "0 \<le> time_Hour t" "time_Hour t < 24"
    unfolding time_Hour_def secondsPerDay_def by linarith+
  have "0 \<le> abs_secs t mod 3600" "abs_secs t mod 3600 < 3600" by simp_all
  then show "0 \<le> time_Minute t" "time_Minute t < 60"
    unfolding time_Minute_def by linarith+
  show "0 \<le> time_Second t" "time_Second t < 60"
    by (simp_all add: time_Second_def)
qed

subsection \<open>Locations with bounded offsets\<close>

lemma lookupTx_bound:
  "\<bar>off\<bar> \<le> b \<Longrightarrow> list_all (\<lambda>(w, off). \<bar>off\<bar> \<le> b) tx
   \<Longrightarrow> \<bar>fst (lookupTx tx u off start)\<bar> \<le> b"
  by (induction tx u off start rule: lookupTx.induct) auto

lemma lookup_bound: "offsets_within l b \<Longrightarrow> \<bar>fst (lookup l u)\<bar> \<le> b"
  unfolding lookup_def offsets_within_def by (auto intro: lookupTx_bound)

lemma abs_secs_bound:
  assumes "offsets_within (tloc t) b"
  shows "\<bar>abs_secs t - secs t\<bar> \<le> b"
  using lookup_bound [OF assms, of "secs t - unixToInternal"] by (simp add: abs_secs_def)

lemma Date_in_range:
  assumes w: "offsets_within l b"
    and r: "1 \<le> m" "m \<le> 12" "0 \<le> h" "h < 24" "0 \<le> mi" "mi < 60" "0 \<le> s" "s < 60"
      "0 \<le> ns" "ns < 1000000000"
  shows "\<bar>secs (Date y m d h mi s ns l) - (86400 * civil_day y m d + 3600 * h + 60 * mi + s)\<bar> \<le> b"
    and "nanos (Date y m d h mi s ns l) = ns"
    and "tloc (Date y m d h mi s ns l) = l"
proof -
  define a where "a = 86400 * civil_day y m d + 3600 * h + 60 * mi + s"
  obtain off st en where lk: "lookup l (a - unixToInternal) = (off, st, en)"
    by (cases "lookup l (a - unixToInternal)") auto
  define off1 where "off1 = (if off \<noteq> 0 \<and> (a - unixToInternal - off < st \<or> a - unixToInternal - off \<ge> en)
                     then fst (lookup l (a - unixToInternal - off)) else off)"
  have n: "norm y (m - 1) 12 = (y, m - 1)" "norm s ns 1000000000 = (s, ns)"
    "norm mi s 60 = (mi, s)" "norm h mi 60 = (h, mi)" "norm d h 24 = (d, h)"
    using r by (simp_all add: norm_def)
  have D: "Date y m d h mi s ns l = \<lparr>secs = a - unixToInternal - off1 + unixToInternal, nanos = ns, tloc = l\<rparr>"
    unfolding Date_def n Let_def prod.case
    using lk by (simp add: a_def civil_day_def secondsPerDay_def off1_def Let_def algebra_simps)
  have "\<bar>off\<bar> \<le> b" using lookup_bound [OF w, of "a - unixToInternal"] lk by simp
  moreover have "\<bar>fst (lookup l (a - unixToInternal - off))\<bar> \<le> b" by (rule lookup_bound [OF w])
  ultimately have o: "\<bar>off1\<bar> \<le> b" by (simp add: off1_def)
  show "\<bar>secs (Date y m d h mi s ns l) - (86400 * civil_day y m d + 3600 * h + 60 * mi + s)\<bar> \<le> b"
    using o by (simp add: D a_def)
  show "nanos (Date y m d h mi s ns l) = ns" "tloc (Date y m d h mi s ns l) = l"
    by (simp_all add: D)
qed

lemma civil_day_next_year: "civil_day y m d + 365 \<le> civil_day (y + 1) m d"
proof -
  have "y mod 4 = 0 \<Longrightarrow> (y + 1) mod 4 \<noteq> 0"
    by presburger
  then have "isLeap y \<Longrightarrow> \<not> isLeap (y + 1)"
    by (simp add: isLeap_def)
  then show ?thesis
    using dse_succ [of y] by (auto simp add: civil_day_def yearLen_def)
qed

lemma AddDate_year_progress:
  assumes w: "offsets_within (tloc t) b" and n: "0 \<le> nanos t" "nanos t < 1000000000"
  shows "abs_secs t + 365 * 86400 - 2 * b \<le> abs_secs (AddDate t 1 0 0)"
    and "tloc (AddDate t 1 0 0) = tloc t"
    and "0 \<le> nanos (AddDate t 1 0 0)" "nanos (AddDate t 1 0 0) < 1000000000"
proof -
  let ?u = "AddDate t 1 0 0"
  note d = Date_in_range [OF w field_ranges(1,2,4,5,6,7,8,9) [of t] n,
      of "time_Year t + 1" "time_Day t"]
  have u: "?u = Date (time_Year t + 1) (time_Month t) (time_Day t) (time_Hour t)
                  (time_Minute t) (time_Second t) (nanos t) (tloc t)"
    by (simp add: AddDate_def)
  show l: "tloc ?u = tloc t" and "0 \<le> nanos ?u" "nanos ?u < 1000000000"
    using d(2,3) n by (simp_all add: u)
  have "\<bar>abs_secs ?u - secs ?u\<bar> \<le> b"
    by (rule abs_secs_bound) (simp add: l w)
  moreover have "\<bar>secs ?u - (86400 * civil_day (time_Year t + 1) (time_Month t) (time_Day t)
                    + 3600 * time_Hour t + 60 * time_Minute t + time_Second t)\<bar> \<le> b"
    using d(1) by (simp add: u)
  ultimately show "abs_secs t + 365 * 86400 - 2 * b \<le> abs_secs ?u"
    using abs_secs_fields [of t]
      civil_day_next_year [of "time_Year t" "time_Month t" "time_Day t"]
    by linarith
qed

lemma year_le_abs_secs:
  assumes "time_Year t \<le> yl"
  shows "abs_secs t < 86400 * daysSinceEpoch (yl + 1)"
proof -
  obtain y r where a: "absYear (abs_secs t div 86400) = (y, r)"
    by (cases "absYear (abs_secs t div 86400)") auto
  have y: "time_Year t = y"
    using a by (simp add: time_Year_def absDate_def secondsPerDay_def split_beta)
  note s = absYear_sound [OF a]
  have "abs_secs t div 86400 < daysSinceEpoch (y + 1)"
    using s dse_succ [of y] by linarith
  moreover have "daysSinceEpoch (y + 1) \<le> daysSinceEpoch (yl + 1)"
    using dse_mono [of "y + 1" "yl + 1"] assms y by simp
  moreover have "abs_secs t = 86400 * (abs_secs t div 86400) + abs_secs t mod 86400" by simp
  moreover have "abs_secs t mod 86400 < 86400" by simp
  ultimately show ?thesis by linarith
qed

text \<open>
  The year loop of \<open>Next\<close> below 1970: each turn moves the local clock forward by a day at
  least, and the loop is only left through the test of the limit.
\<close>

lemma next_year_loop_below_minYear:
  assumes w: "offsets_within loc (182 * 86400)"
    and yl: "yl < minYear"
  shows "tloc t = loc \<Longrightarrow> 0 \<le> nanos t \<Longrightarrow> nanos t < 1000000000 \<Longrightarrow> time_Year t \<le> yl
         \<Longrightarrow> next_run s loc orig yl (YEAR_LOOP, t, True) = Some zeroTime"
proof (induction "nat (86400 * daysSinceEpoch (yl + 1) - abs_secs t)" arbitrary: t
    rule: less_induct)
  case less
  let ?u = "AddDate t 1 0 0"
  have wt: "offsets_within (tloc t) (182 * 86400)" using w less.prems(1) by simp
  note p = AddDate_year_progress [OF wt less.prems(2,3)]
  have un: "time_Year t < minYear" using less.prems(4) yl by linarith
  show ?case
  proof (cases "time_Year ?u > yl \<or> time_Year ?u > maxYear")
    case True
    then have "next_step s loc orig yl (YEAR_LOOP, t, True) = Inl zeroTime"
      using un by (simp add: next_year_def)
    then show ?thesis by (rule next_run_return)
  next
    case False
    then have st: "next_step s loc orig yl (YEAR_LOOP, t, True) = Inr (YEAR_LOOP, ?u, True)"
      using un by (simp add: next_year_def)
    have le: "time_Year ?u \<le> yl" using False by linarith
    have "abs_secs ?u < 86400 * daysSinceEpoch (yl + 1)" using le by (rule year_le_abs_secs)
    moreover have "abs_secs t < abs_secs ?u" using p(1) by linarith
    ultimately have m: "nat (86400 * daysSinceEpoch (yl + 1) - abs_secs ?u)
        < nat (86400 * daysSinceEpoch (yl + 1) - abs_secs t)" by linarith
    have lu: "tloc ?u = loc" using p(2) less.prems(1) by simp
    have "next_run s loc orig yl (YEAR_LOOP, ?u, True) = Some zeroTime"
      by (rule less.hyps [OF m lu p(3) p(4) le])
    then show ?thesis using next_run_step [OF st] by simp
  qed
qed

subsection \<open>The instant the search starts at\<close>

lemma lookup_fixed: "zoneTrans l = [] \<Longrightarrow> lookup l u = (zoneOffset l, alpha, omega)"
  by (simp add: lookup_def)

lemma abs_secs_fixed: "zoneTrans (tloc t) = [] \<Longrightarrow> abs_secs t = secs t + zoneOffset (tloc t)"
  by (simp add: abs_secs_def lookup_fixed)

lemma tloc_in_schedule_location: "tloc (in_schedule_location s t) = next_loc s t"
  by (simp add: in_schedule_location_def next_loc_def In_def time_Location_def)

lemma next_start_secs:
  "next_start s t = (in_schedule_location s t)
     \<lparr>secs := secs (in_schedule_location s t) - 1, nanos := 0\<rparr>"
  by (simp add: next_start_def Let_def Add_def Second_d_def Nanosecond_def time_Nanosecond_def)

lemma time_Year_mono_fixed:
  assumes "zoneTrans (tloc t) = []" "tloc u = tloc t" "secs u \<le> secs t"
  shows "time_Year u \<le> time_Year t"
proof -
  have "abs_secs u \<le> abs_secs t"
    using assms by (simp add: abs_secs_fixed)
  then have "abs_secs u div secondsPerDay \<le> abs_secs t div secondsPerDay"
    by (simp add: secondsPerDay_def zdiv_mono1)
  then have "fst (absYear (abs_secs u div secondsPerDay))
             \<le> fst (absYear (abs_secs t div secondsPerDay))"
    by (rule absYear_mono)
  then show ?thesis
    by (simp add: time_Year_def absDate_def split_beta)
qed

lemma next_start_year_le:
  assumes "zoneTrans (next_loc s t) = []"
  shows "time_Year (next_start s t) \<le> time_Year (in_schedule_location s t)"
  by (rule time_Year_mono_fixed)
     (use assms in \<open>simp_all add: next_start_secs tloc_in_schedule_location\<close>)

lemma next_start_parts:
  "tloc (next_start s t) = next_loc s t" "nanos (next_start s t) = 0"
  by (simp_all add: next_start_secs tloc_in_schedule_location)


subsection \<open>C1: \<open>Next\<close> and the input instant\<close>

text \<open>
  C1 says that a result of \<open>Next\<close> other than the zero time is strictly after the input.
  \<open>Next\<close> starts its search one second before the input, with the nanoseconds cut off
  (line 96 subtracts a second where the comment above it announces the upcoming second),
  so with the unrestricted schedule \<open>Next\<close> of 2024-01-01 10:00:30 UTC is 10:00:29, an
  instant before the input.
\<close>

theorem Next_returns_instant_before_input:
  "Next (wildcard UTC) (Date 2024 1 1 10 0 30 0 UTC) = Some (Date 2024 1 1 10 0 29 0 UTC)
   \<and> \<not> IsZero (Date 2024 1 1 10 0 29 0 UTC)
   \<and> Before (Date 2024 1 1 10 0 29 0 UTC) (Date 2024 1 1 10 0 30 0 UTC)"
  by code_simp

subsection \<open>C3: wraparound in \<open>Prev\<close>\<close>

text \<open>
  C3 says that in \<open>Prev\<close> a month stepped back past January into December restarts the
  search at the year test, so that a result has its year bit set. The month loop of
  \<open>Prev\<close> jumps to \<open>WRAP\<close> when the month it has stepped to is January, the test of
  \<open>Next\<close>; a step from January to December of the year before goes on without a new
  test of the year. For the schedule of December 2024 alone, \<open>Prev\<close> of 2024-03-15
  10:30:00 UTC is 2023-12-31 00:00:00, in a year the schedule excludes.
\<close>

theorem Prev_result_in_excluded_year:
  "Prev december2024 (Date 2024 3 15 10 30 0 0 UTC) = Some (Date 2023 12 31 0 0 0 0 UTC)
   \<and> \<not> IsZero (Date 2023 12 31 0 0 0 0 UTC)
   \<and> time_Year (Date 2023 12 31 0 0 0 0 UTC) = 2023
   \<and> Bit (Year december2024) (time_Year (Date 2023 12 31 0 0 0 0 UTC) - minYear) = 0"
  by code_simp

subsection \<open>C4: the result of \<open>Next\<close> and the schedule\<close>

text \<open>
  C4 says that a result of \<open>Next\<close> other than the zero time satisfies every field of the
  schedule in the schedule's location. The hour loop takes an hour of 0 as the sign that
  the day has changed. In Sao Paulo the day changes from November 3 to November 4, 2018
  at 23:59:59 to 01:00:00, without an hour 0: for the schedule "at 01:00 on the third
  of the month", \<open>Next\<close> of November 3, 03:00:00 is November 4, 01:00:00, a day that
  \<open>dayMatches\<close> rejects.
\<close>

theorem Next_result_on_excluded_day:
  "Next third_at_one (Date 2018 11 3 3 0 0 0 saoPaulo) = Some (Date 2018 11 4 1 0 0 0 saoPaulo)
   \<and> \<not> IsZero (Date 2018 11 4 1 0 0 0 saoPaulo)
   \<and> time_Day (Date 2018 11 4 1 0 0 0 saoPaulo) = 4
   \<and> \<not> dayMatches third_at_one (Date 2018 11 4 1 0 0 0 saoPaulo)"
  by code_simp

subsection \<open>C5: \<open>dayMatches\<close>\<close>

lemma mod_mult_div: "0 < (b::int) \<Longrightarrow> 0 < c \<Longrightarrow> (a mod (b * c)) div b = (a div b) mod c"
proof -
  assume b: "0 < b" and c: "0 < c"
  have "a mod (b * c) = b * (a div b mod c) + a mod b"
    using c by (simp add: zmod_zmult2_eq)
  moreover have "(b * (a div b mod c) + a mod b) div b = a div b mod c"
    by (rule int_div_pos_eq[where r = "a mod b"]) (use b in auto)
  ultimately show ?thesis by simp
qed

lemma weekday_days: "time_Weekday t = (abs_secs t div secondsPerDay + 1) mod 7"
proof -
  have "((abs_secs t + 86400) mod (86400 * 7)) div 86400 = ((abs_secs t + 86400) div 86400) mod 7"
    by (rule mod_mult_div) auto
  moreover have "(abs_secs t + 86400) div 86400 = abs_secs t div 86400 + 1"
    using div_add_self2 [of 86400 "abs_secs t"] by simp
  ultimately show ?thesis
    by (simp add: time_Weekday_def secondsPerDay_def)
qed

text \<open>
  C5: \<open>dayMatches\<close> is the conjunction of the day-of-month bit and the day-of-week bit
  when bit 160 is set in either mask, and their disjunction otherwise. The weekday is the
  number of days since a Monday, plus one, modulo 7: 0 is Sunday.
\<close>

theorem dayMatches_rule:
  "dayMatches s t =
     (if bit (Dom s) 160 \<or> bit (Dow s) 160
      then bit (Dom s) (nat (time_Day t)) \<and> bit (Dow s) (nat (time_Weekday t))
      else bit (Dom s) (nat (time_Day t)) \<or> bit (Dow s) (nat (time_Weekday t)))
   \<and> time_Weekday t = (abs_secs t div secondsPerDay + 1) mod 7"
  by (simp add: dayMatches_def Bit_pos maxBits_def weekday_days Let_def)

text \<open>
  The rule on Monday, January 15, 2024 and on Thursday, February 15, 2024, for the
  schedule with the flag, and on Sunday, January 7, 2024.
\<close>

theorem dayMatches_rule_witness:
  "dayMatches monday_the_15th (Date 2024 1 15 0 0 0 0 UTC)
   \<and> \<not> dayMatches monday_the_15th (Date 2024 2 15 0 0 0 0 UTC)
   \<and> time_Weekday (Date 2024 1 7 0 0 0 0 UTC) = 0"
proof -
  have e: "bit (Dom monday_the_15th) 160" "\<not> bit (Dow monday_the_15th) 160"
    "bit (Dom monday_the_15th) (nat (time_Day (Date 2024 1 15 0 0 0 0 UTC)))"
    "bit (Dow monday_the_15th) (nat (time_Weekday (Date 2024 1 15 0 0 0 0 UTC)))"
    "\<not> bit (Dow monday_the_15th) (nat (time_Weekday (Date 2024 2 15 0 0 0 0 UTC)))"
    "(abs_secs (Date 2024 1 7 0 0 0 0 UTC) div secondsPerDay + 1) mod 7 = 0"
    by code_simp+
  have a: "dayMatches monday_the_15th (Date 2024 1 15 0 0 0 0 UTC)"
    using dayMatches_rule [of monday_the_15th "Date 2024 1 15 0 0 0 0 UTC", THEN conjunct1]
    by (simp only: e simp_thms if_True)
  have b: "\<not> dayMatches monday_the_15th (Date 2024 2 15 0 0 0 0 UTC)"
    using dayMatches_rule [of monday_the_15th "Date 2024 2 15 0 0 0 0 UTC", THEN conjunct1]
    by (simp only: e simp_thms if_True)
  have c: "time_Weekday (Date 2024 1 7 0 0 0 0 UTC) = 0"
    using dayMatches_rule [of monday_the_15th "Date 2024 1 7 0 0 0 0 UTC", THEN conjunct2]
    by (simp only: e)
  show ?thesis
    using a b c by blast
qed

subsection \<open>C7: the day step and daylight saving time\<close>

text \<open>
  C7: in the day loop of \<open>Next\<close> and of \<open>Prev\<close>, when the day does not match, the
  instant \<open>u\<close> reached by the step of one day is replaced, if its hour \<open>h\<close> is not 0, by
  \<open>u\<close> plus \<open>24 - h\<close> hours when \<open>h > 12\<close> and by \<open>u\<close> minus \<open>h\<close> hours otherwise; the
  loop then goes on with that instant (or jumps to \<open>WRAP\<close> when its day is 1).
\<close>

theorem day_step_dst_adjust:
  assumes "\<not> dayMatches s t"
  shows "(let u = AddDate (if \<not> added
                           then Date (time_Year t) (time_Month t) (time_Day t) 0 0 0 0 loc
                           else t) 0 0 1;
              h = time_Hour u;
              u' = (if h \<noteq> 0
                    then (if h > 12 then Add u ((24 - h) * Hour_d) else Add u (- h * Hour_d))
                    else u)
          in next_day s loc t added = Inr (if time_Day u' = 1 then WRAP else DAY_LOOP, u', True))
       \<and> (let u = AddDate (if \<not> added
                            then Date (time_Year t) (time_Month t) (time_Day t) 0 0 0 0 loc
                            else t) 0 0 (- 1);
              h = time_Hour u;
              u' = (if h \<noteq> 0
                    then (if h > 12 then Add u ((24 - h) * Hour_d) else Add u (- h * Hour_d))
                    else u)
          in prev_day s loc t added addYear addMonth addDay addHour addMinute
             = Inr (if time_Day u' = 1 then WRAP else DAY_LOOP, u', True,
                    addYear, addMonth, True, addHour, addMinute))"
  using assms by (simp add: next_day_def prev_day_def dstAdjust_def Let_def)

text \<open>
  In Sao Paulo, from November 3, 2018, 10:00: the step of one day from midnight of
  November 3 gives 23:00 of November 3, which the adjustment moves to 01:00 of November 4.
\<close>

theorem day_step_dst_adjust_witness:
  "\<not> dayMatches on_the_fifth (Date 2018 11 3 10 0 0 0 saoPaulo)
   \<and> time_Hour (AddDate (Date 2018 11 3 0 0 0 0 saoPaulo) 0 0 1) = 23
   \<and> next_day on_the_fifth saoPaulo (Date 2018 11 3 10 0 0 0 saoPaulo) False
       = Inr (DAY_LOOP, Date 2018 11 4 1 0 0 0 saoPaulo, True)
   \<and> prev_day on_the_fifth saoPaulo (Date 2018 11 3 10 0 0 0 saoPaulo) False
         False False False False False
       = Inr (DAY_LOOP, Date 2018 11 2 0 0 0 0 saoPaulo, True, False, False, True, False, False)"
proof -
  have h: "\<not> dayMatches on_the_fifth (Date 2018 11 3 10 0 0 0 saoPaulo)"
    by code_simp
  have e: "Date (time_Year (Date 2018 11 3 10 0 0 0 saoPaulo))
             (time_Month (Date 2018 11 3 10 0 0 0 saoPaulo))
             (time_Day (Date 2018 11 3 10 0 0 0 saoPaulo)) 0 0 0 0 saoPaulo
           = Date 2018 11 3 0 0 0 0 saoPaulo"
    "time_Hour (AddDate (Date 2018 11 3 0 0 0 0 saoPaulo) 0 0 1) = 23"
    "Add (AddDate (Date 2018 11 3 0 0 0 0 saoPaulo) 0 0 1) ((24 - 23) * Hour_d)
       = Date 2018 11 4 1 0 0 0 saoPaulo"
    "time_Day (Date 2018 11 4 1 0 0 0 saoPaulo) = 4"
    "time_Hour (AddDate (Date 2018 11 3 0 0 0 0 saoPaulo) 0 0 (- 1)) = 0"
    "AddDate (Date 2018 11 3 0 0 0 0 saoPaulo) 0 0 (- 1) = Date 2018 11 2 0 0 0 0 saoPaulo"
    "time_Day (Date 2018 11 2 0 0 0 0 saoPaulo) = 2"
    by code_simp+
  show ?thesis
    using h day_step_dst_adjust [OF h, of False saoPaulo False False False False False] e
    by (simp add: Let_def)
qed

subsection \<open>C8: termination\<close>

text \<open>
  C8 says that \<open>Next\<close> and \<open>Prev\<close> return on every input. In Apia, December 30, 2011
  does not exist: \<open>AddDate(0, 0, 1)\<close> on December 29, 00:00:00 asks \<open>Date\<close> for December
  30, 00:00:00, and \<open>Date\<close> answers with the instant of December 29, 00:00:00 again. For
  the schedule "on the 31st" the day loop of \<open>Next\<close>, started on December 28 at noon,
  reaches December 29, 00:00:00 and stays there: the hour is 0, the day is not 1, the day
  does not match, and the year is never looked at again.
\<close>

theorem Next_does_not_return:
  "Next on_the_31st (Date 2011 12 28 12 0 0 0 apia) = None"
proof -
  let ?t0 = "Add (Date 2011 12 28 12 0 0 0 apia) (- 1 * Second_d)"
  let ?t1 = "Date 2011 12 29 0 0 0 0 apia"
  have start: "time_Location (Date 2011 12 28 12 0 0 0 apia) = apia"
    "next_loc on_the_31st (Date 2011 12 28 12 0 0 0 apia) = apia"
    "next_start on_the_31st (Date 2011 12 28 12 0 0 0 apia) = ?t0"
    "time_Year ?t0 + 5 = 2016"
    by code_simp+
  have s1: "next_step on_the_31st apia apia 2016 (WRAP, ?t0, False) = Inr (YEAR_LOOP, ?t0, False)"
    by code_simp
  have s2: "next_step on_the_31st apia apia 2016 (YEAR_LOOP, ?t0, False) = Inr (MONTH_LOOP, ?t0, False)"
    by code_simp
  have s3: "next_step on_the_31st apia apia 2016 (MONTH_LOOP, ?t0, False) = Inr (DAY_LOOP, ?t0, False)"
    by code_simp
  have s4: "next_step on_the_31st apia apia 2016 (DAY_LOOP, ?t0, False) = Inr (DAY_LOOP, ?t1, True)"
    by code_simp
  have s5: "next_step on_the_31st apia apia 2016 (DAY_LOOP, ?t1, True) = Inr (DAY_LOOP, ?t1, True)"
    by code_simp
  have "Next on_the_31st (Date 2011 12 28 12 0 0 0 apia)
        = next_run on_the_31st apia apia 2016 (WRAP, ?t0, False)"
    by (simp only: Next_def Let_def start)
  also have "\<dots> = next_run on_the_31st apia apia 2016 (DAY_LOOP, ?t1, True)"
    by (simp only: next_run_step [OF s1] next_run_step [OF s2] next_run_step [OF s3]
        next_run_step [OF s4])
  also have "\<dots> = None"
    by (rule next_run_stuck [OF s5])
  finally show ?thesis .
qed

subsection \<open>C9: \<open>Prev\<close> of an instant that matches\<close>

lemma prev_run_matching:
  assumes "minYear \<le> time_Year t1"
    and "yl \<le> time_Year t1"
    and "Bit (Year s) (time_Year t1 - minYear) \<noteq> 0"
    and "Bit (Month s) (time_Month t1) \<noteq> 0"
    and "dayMatches s t1"
    and "Bit (Hour s) (time_Hour t1) \<noteq> 0"
    and "Bit (Minute s) (time_Minute t1) \<noteq> 0"
    and "Bit (Second s) (time_Second t1) \<noteq> 0"
  shows "prev_run s loc orig yl (WRAP, t1, False, False, False, False, False, False)
         = Some (In t1 orig)"
proof -
  have "prev_run s loc orig yl (WRAP, t1, False, False, False, False, False, False)
        = prev_run s loc orig yl (YEAR_LOOP, t1, False, False, False, False, False, False)"
    by (rule prev_run_step) (use assms in \<open>simp add: prev_wrap_def\<close>)
  also have "\<dots> = prev_run s loc orig yl (MONTH_LOOP, t1, False, False, False, False, False, False)"
    by (rule prev_run_step) (use assms in \<open>simp add: prev_year_def\<close>)
  also have "\<dots> = prev_run s loc orig yl (DAY_LOOP, t1, False, False, False, False, False, False)"
    by (rule prev_run_step) (use assms in \<open>simp add: prev_month_def\<close>)
  also have "\<dots> = prev_run s loc orig yl (HOUR_LOOP, t1, False, False, False, False, False, False)"
    by (rule prev_run_step) (use assms in \<open>simp add: prev_day_def\<close>)
  also have "\<dots> = prev_run s loc orig yl (MINUTE_LOOP, t1, False, False, False, False, False, False)"
    by (rule prev_run_step) (use assms in \<open>simp add: prev_hour_def\<close>)
  also have "\<dots> = prev_run s loc orig yl (SECOND_LOOP, t1, False, False, False, False, False, False)"
    by (rule prev_run_step) (use assms in \<open>simp add: prev_minute_def\<close>)
  also have "\<dots> = Some (In t1 orig)"
    by (rule prev_run_return) (use assms in \<open>simp add: prev_second_def\<close>)
  finally show ?thesis .
qed

text \<open>
  C9: when the input, read in the location the schedule is evaluated in, has its second,
  minute, hour and month bits set, a day that matches, and a year from 1970 on whose bit
  is set, \<open>Prev\<close> returns the input itself, in the location it came with.
\<close>

theorem Prev_returns_matching_input:
  assumes "minYear \<le> time_Year (in_schedule_location s t)"
    and "Bit (Year s) (time_Year (in_schedule_location s t) - minYear) \<noteq> 0"
    and "Bit (Month s) (time_Month (in_schedule_location s t)) \<noteq> 0"
    and "dayMatches s (in_schedule_location s t)"
    and "Bit (Hour s) (time_Hour (in_schedule_location s t)) \<noteq> 0"
    and "Bit (Minute s) (time_Minute (in_schedule_location s t)) \<noteq> 0"
    and "Bit (Second s) (time_Second (in_schedule_location s t)) \<noteq> 0"
  shows "Prev s t = Some t"
proof -
  have inback: "In (in_schedule_location s t) (time_Location t) = t"
    by (simp add: in_schedule_location_def time_Location_def In_back)
  have "prev_run s (next_loc s t) (time_Location t) (time_Year (in_schedule_location s t) - 5)
          (WRAP, in_schedule_location s t, False, False, False, False, False, False)
        = Some (In (in_schedule_location s t) (time_Location t))"
    by (rule prev_run_matching) (use assms in simp_all)
  then show ?thesis
    by (simp add: Prev_def Let_def inback)
qed

text \<open>
  For the schedule of Sao Paulo "at 01:00 on the third of the month" and the instant
  2018-11-03 04:30:15 UTC, which is 01:30:15 in Sao Paulo.
\<close>

theorem Prev_returns_matching_input_witness:
  "minYear \<le> time_Year (in_schedule_location third_at_one (Date 2018 11 3 4 30 15 0 UTC))
   \<and> Bit (Year third_at_one) (time_Year (in_schedule_location third_at_one (Date 2018 11 3 4 30 15 0 UTC)) - minYear) \<noteq> 0
   \<and> Bit (Month third_at_one) (time_Month (in_schedule_location third_at_one (Date 2018 11 3 4 30 15 0 UTC))) \<noteq> 0
   \<and> dayMatches third_at_one (in_schedule_location third_at_one (Date 2018 11 3 4 30 15 0 UTC))
   \<and> Bit (Hour third_at_one) (time_Hour (in_schedule_location third_at_one (Date 2018 11 3 4 30 15 0 UTC))) \<noteq> 0
   \<and> Bit (Minute third_at_one) (time_Minute (in_schedule_location third_at_one (Date 2018 11 3 4 30 15 0 UTC))) \<noteq> 0
   \<and> Bit (Second third_at_one) (time_Second (in_schedule_location third_at_one (Date 2018 11 3 4 30 15 0 UTC))) \<noteq> 0
   \<and> time_Hour (in_schedule_location third_at_one (Date 2018 11 3 4 30 15 0 UTC)) = 1
   \<and> Prev third_at_one (Date 2018 11 3 4 30 15 0 UTC) = Some (Date 2018 11 3 4 30 15 0 UTC)"
proof -
  let ?t = "Date 2018 11 3 4 30 15 0 UTC"
  have h: "minYear \<le> time_Year (in_schedule_location third_at_one ?t)"
    "Bit (Year third_at_one) (time_Year (in_schedule_location third_at_one ?t) - minYear) \<noteq> 0"
    "Bit (Month third_at_one) (time_Month (in_schedule_location third_at_one ?t)) \<noteq> 0"
    "dayMatches third_at_one (in_schedule_location third_at_one ?t)"
    "Bit (Hour third_at_one) (time_Hour (in_schedule_location third_at_one ?t)) \<noteq> 0"
    "Bit (Minute third_at_one) (time_Minute (in_schedule_location third_at_one ?t)) \<noteq> 0"
    "Bit (Second third_at_one) (time_Second (in_schedule_location third_at_one ?t)) \<noteq> 0"
    "time_Hour (in_schedule_location third_at_one ?t) = 1"
    by code_simp+
  show ?thesis
    using h Prev_returns_matching_input [OF h(1-7)] by simp
qed

subsection \<open>C6: the year limit of \<open>Next\<close>\<close>




subsection \<open>C10: inputs before 1965\<close>

text \<open>
  C10, with the year the code reads: when the year of the instant the search starts at,
  one second before the input and read in the location the schedule is evaluated in
  (line 102), is at most 1964, \<open>Next\<close> returns the zero time, whatever the schedule: the
  limit is then at most 1969, and the year loop passes it before it reaches 1970. This
  holds in every location whose offsets from UTC are within 182 days, where a step of one
  year on the calendar moves the instant forward by a day at least.
\<close>

theorem Next_start_before_1965_gives_up:
  assumes w: "offsets_within (next_loc s t) (182 * 86400)"
    and y: "time_Year (next_start s t) \<le> 1964"
  shows "Next s t = Some zeroTime"
proof -
  let ?loc = "next_loc s t"
  let ?orig = "time_Location t"
  let ?t0 = "next_start s t"
  let ?yl = "time_Year ?t0 + 5"
  let ?t1 = "Date (time_Year ?t0) 1 1 0 0 0 0 ?loc"
  let ?u = "AddDate ?t1 1 0 0"
  have yl: "?yl < minYear" using y by (simp add: minYear_def)
  have s1: "next_step s ?loc ?orig ?yl (WRAP, ?t0, False) = Inr (YEAR_LOOP, ?t0, False)"
    using y by (simp add: next_wrap_def maxYear_def)
  have un: "time_Year ?t0 < minYear" using y by (simp add: minYear_def)
  have d: "nanos ?t1 = 0" "tloc ?t1 = ?loc"
    using Date_in_range(2,3) [OF w, of 1 0 0 0 0 "time_Year ?t0" 1] by simp_all
  have w1: "offsets_within (tloc ?t1) (182 * 86400)" using w d(2) by simp
  note p = AddDate_year_progress(2,3,4) [OF w1, unfolded d]
  have run: "next_run s ?loc ?orig ?yl (YEAR_LOOP, ?t0, False) = Some zeroTime"
  proof (cases "time_Year ?u > ?yl \<or> time_Year ?u > maxYear")
    case True
    then have "next_step s ?loc ?orig ?yl (YEAR_LOOP, ?t0, False) = Inl zeroTime"
      using un by (simp add: next_year_def)
    then show ?thesis by (rule next_run_return)
  next
    case False
    then have s2: "next_step s ?loc ?orig ?yl (YEAR_LOOP, ?t0, False) = Inr (YEAR_LOOP, ?u, True)"
      using un by (simp add: next_year_def)
    have le: "time_Year ?u \<le> ?yl" using False by linarith
    have "next_run s ?loc ?orig ?yl (YEAR_LOOP, ?u, True) = Some zeroTime"
      by (rule next_year_loop_below_minYear [OF w yl]) (use p le in simp_all)
    then show ?thesis using next_run_step [OF s2] by simp
  qed
  show ?thesis
    using next_run_step [OF s1] run by (simp add: Next_def Let_def)
qed

text \<open>
  At 01:00 on the third day of the month in Sao Paulo, a location with a transition, from
  1960-06-01 00:00:00 there; and the unrestricted schedule from the first second of 1965
  in UTC, where the search starts in 1964.
\<close>

theorem Next_start_before_1965_gives_up_witness:
  "offsets_within (next_loc third_at_one (Date 1960 6 1 0 0 0 0 saoPaulo)) (182 * 86400)
   \<and> time_Year (next_start third_at_one (Date 1960 6 1 0 0 0 0 saoPaulo)) \<le> 1964
   \<and> Next third_at_one (Date 1960 6 1 0 0 0 0 saoPaulo) = Some zeroTime
   \<and> time_Year (Date 1965 1 1 0 0 0 0 UTC) = 1965
   \<and> Next (wildcard UTC) (Date 1965 1 1 0 0 0 0 UTC) = Some zeroTime"
proof -
  let ?a = "Date 1960 6 1 0 0 0 0 saoPaulo"
  let ?b = "Date 1965 1 1 0 0 0 0 UTC"
  have a: "offsets_within (next_loc third_at_one ?a) (182 * 86400)"
    "time_Year (next_start third_at_one ?a) \<le> 1964"
    by code_simp+
  have b: "offsets_within (next_loc (wildcard UTC) ?b) (182 * 86400)"
    "time_Year (next_start (wildcard UTC) ?b) \<le> 1964"
    "time_Year ?b = 1965"
    by code_simp+
  show ?thesis
    using a b(3) Next_start_before_1965_gives_up [OF a] Next_start_before_1965_gives_up [OF b(1,2)]
    by (simp only: simp_thms)
qed

text \<open>
  C10 as it is worded, with the year of the input read in the input's own location, does
  not hold: 1964-12-31 23:59:59 at UTC-12 is 1965-01-01 11:59:59 in UTC, where the
  schedule is evaluated; the limit is 1970, and the unrestricted schedule matches
  1970-01-01 00:00:00 UTC.
\<close>

theorem Next_from_1964_finds_1970:
  "time_Year (Date 1964 12 31 23 59 59 0 (FixedZone (- 43200))) = 1964
   \<and> Next (wildcard UTC) (Date 1964 12 31 23 59 59 0 (FixedZone (- 43200)))
       = Some (In (Date 1970 1 1 0 0 0 0 UTC) (FixedZone (- 43200)))
   \<and> \<not> IsZero (In (Date 1970 1 1 0 0 0 0 UTC) (FixedZone (- 43200)))"
  by code_simp

end
